theory Spec2Isabelle
  imports Complex_Main "HOL-Library.Word" "HOL-Library.AList" "HOL-Library.Sublist"
begin

unbundle bit_operations_syntax

section \<open>Errors\<close>

text \<open>
  The failures a call can end with. \<open>TypeError\<close> is the exception JavaScript raises
  when a property of \<open>undefined\<close> is read (\<open>this._interface.FORMAT_TEXT_MAP\<close> before
  \<open>setInterface\<close>). The other three are the failures the specification names;
  \<open>src/src/tracer.js\<close> and the span class raise none of them.
\<close>

datatype error = TypeError | MalformedCarrier | UnsupportedFormat | InvalidBaggageKey

section \<open>JavaScript values\<close>

text \<open>
  The untyped arguments of \<open>startSpan\<close>. A function value \<open>JFun r\<close> is a function
  that returns \<open>r\<close> when called without arguments; an object is the list of its own
  properties in insertion order.
\<close>

datatype jsval =
    JUndefined
  | JNull
  | JBool bool
  | JNum int
  | JStr string
  | JFun jsval
  | JObj "(string \<times> jsval) list"

fun truthy :: "jsval \<Rightarrow> bool" where
  "truthy JUndefined = False"
| "truthy JNull = False"
| "truthy (JBool b) = b"
| "truthy (JNum n) = (n \<noteq> 0)"
| "truthy (JStr s) = (s \<noteq> [])"
| "truthy (JFun r) = True"
| "truthy (JObj ps) = True"

fun js_typeof :: "jsval \<Rightarrow> string" where
  "js_typeof JUndefined = ''undefined''"
| "js_typeof JNull = ''object''"
| "js_typeof (JBool b) = ''boolean''"
| "js_typeof (JNum n) = ''number''"
| "js_typeof (JStr s) = ''string''"
| "js_typeof (JFun r) = ''function''"
| "js_typeof (JObj ps) = ''object''"

text \<open>
  Property read \<open>v.k\<close> on a value that is neither \<open>undefined\<close> nor \<open>null\<close>: an own
  property of an object, \<open>undefined\<close> otherwise.
\<close>

fun get_prop :: "jsval \<Rightarrow> string \<Rightarrow> jsval" where
  "get_prop (JObj ps) k = (case map_of ps k of None \<Rightarrow> JUndefined | Some v \<Rightarrow> v)"
| "get_prop v k = JUndefined"

fun call0 :: "jsval \<Rightarrow> jsval" where
  "call0 (JFun r) = r"
| "call0 v = JUndefined"

section \<open>The span class (src/unnamed/part_000)\<close>

text \<open>
  \<open>class BasicSpan\<close>: the constructor stores the tracer and nothing else; every other
  method has an empty body and returns \<open>undefined\<close>. The tracer is held by reference
  (\<open>tracer_ref\<close>, the field \<open>_tracer\<close>).
\<close>

record BasicSpan =
  tracer_ref :: nat

text \<open>
  The \<open>fields\<close> argument of \<open>startSpan\<close> and the object literal it passes to the
  constructor: an object with these four properties, a missing one being \<open>undefined\<close>.
\<close>

record span_fields =
  operationName :: jsval
  parent :: jsval
  startTime :: jsval
  tags :: jsval

text \<open>
  \<open>constructor(tracer, {operationName, startTime = Date.now(), context, tags})\<close>:
  the destructured names are bound (\<open>startTime\<close> to the clock \<open>now\<close> when the
  argument has none, \<open>context\<close> to \<open>undefined\<close> since \<open>startSpan\<close> passes no such
  property) and the body is \<open>this._tracer = tracer\<close>.
\<close>

definition new_BasicSpan :: "nat \<Rightarrow> int \<Rightarrow> span_fields \<Rightarrow> BasicSpan" where
  "new_BasicSpan tr now arg =
     (let operationName' = operationName arg;
          startTime' = (if startTime arg = JUndefined then JNum now else startTime arg);
          context' = JUndefined;
          tags' = tags arg
      in \<lparr>tracer_ref = tr\<rparr>)"

text \<open>
  The methods, each taking the span last and, unless it returns a value, giving back the
  span after the call. \<open>log\<close> is named \<open>log_span\<close> here.
\<close>

definition tracer :: "BasicSpan \<Rightarrow> nat" where
  "tracer s = tracer_ref s"

definition setOperationName :: "jsval \<Rightarrow> BasicSpan \<Rightarrow> BasicSpan" where
  "setOperationName name s = s"

definition setTag :: "jsval \<Rightarrow> jsval \<Rightarrow> BasicSpan \<Rightarrow> BasicSpan" where
  "setTag key val s = s"

definition addTags :: "jsval \<Rightarrow> BasicSpan \<Rightarrow> BasicSpan" where
  "addTags keyValuePairs s = s"

text \<open>
  \<open>setBaggageItem(key, value) { }\<close>: returns normally for every key and leaves the
  span as it was. The result is the span after the call; no error is raised.
\<close>

definition setBaggageItem :: "string \<Rightarrow> string \<Rightarrow> BasicSpan \<Rightarrow> error + BasicSpan" where
  "setBaggageItem key val s = Inr s"

text \<open>\<open>getBaggageItem(key) { }\<close>: the value of the call is \<open>undefined\<close>.\<close>

definition getBaggageItem :: "string \<Rightarrow> BasicSpan \<Rightarrow> jsval" where
  "getBaggageItem key s = JUndefined"

definition log_span :: "jsval \<Rightarrow> BasicSpan \<Rightarrow> BasicSpan" where
  "log_span fs s = s"

definition finish :: "jsval \<Rightarrow> BasicSpan \<Rightarrow> BasicSpan" where
  "finish finishTime s = s"

section \<open>The tracer (src/src/tracer.js)\<close>

text \<open>
  The modules \<open>./sampler\<close>, \<open>./recorder\<close> and \<open>./propagation\<close> are imported by
  \<open>tracer.js\<close> and are not part of the sources at hand. The tracer calls one method
  of its sampler, one of its recorder and two of each propagator, so an object is its
  methods together with its private state: a sampler and a recorder may keep state
  between calls; a propagator's \<open>inject\<close> maps a span and a carrier to the carrier it
  leaves behind, its \<open>join\<close> maps an operation name and a carrier to a span, and
  either may fail.
\<close>

record ('a, 'p, 's) sampler_obj =
  isSample_impl :: "'a \<Rightarrow> 'p \<Rightarrow> 's \<Rightarrow> bool \<times> 's"
  sampler_state :: 's

record ('a, 'r) recorder_obj =
  record_impl :: "'a \<Rightarrow> 'r \<Rightarrow> 'r"
  recorder_state :: 'r

record ('a, 'c) propagator_obj =
  inject_impl :: "'a \<Rightarrow> 'c \<Rightarrow> error + 'c"
  join_impl :: "string \<Rightarrow> 'c \<Rightarrow> error + 'a"

text \<open>The object handed to \<open>setInterface\<close>: it carries the two format tokens.\<close>

record Interface =
  FORMAT_TEXT_MAP :: string
  FORMAT_BINARY :: string

record ('a, 'p, 'c, 's, 'r) BasicTracer =
  self_ref :: nat
  sampler :: "('a, 'p, 's) sampler_obj"
  recorder :: "('a, 'r) recorder_obj"
  binaryPropagator :: "('a, 'c) propagator_obj"
  textPropagator :: "('a, 'c) propagator_obj"
  interface :: "Interface option"

text \<open>
  \<open>constructor({sampler, recorder} = {})\<close>: a missing sampler or recorder is replaced
  by a fresh default object, the two propagators are created, and \<open>_interface\<close>
  stays unset until \<open>setInterface\<close>.
\<close>

definition new_BasicTracer ::
    "nat \<Rightarrow> ('a, 'p, 's) sampler_obj \<Rightarrow> ('a, 'r) recorder_obj \<Rightarrow>
     ('a, 'c) propagator_obj \<Rightarrow> ('a, 'c) propagator_obj \<Rightarrow>
     ('a, 'p, 's) sampler_obj option \<Rightarrow> ('a, 'r) recorder_obj option \<Rightarrow>
     ('a, 'p, 'c, 's, 'r) BasicTracer" where
  "new_BasicTracer ref default_sampler default_recorder binary_prop text_prop smp rcd =
     \<lparr>self_ref = ref,
      sampler = (case smp of None \<Rightarrow> default_sampler | Some s \<Rightarrow> s),
      recorder = (case rcd of None \<Rightarrow> default_recorder | Some r \<Rightarrow> r),
      binaryPropagator = binary_prop,
      textPropagator = text_prop,
      interface = None\<rparr>"

definition setInterface ::
    "Interface \<Rightarrow> ('a, 'p, 'c, 's, 'r) BasicTracer \<Rightarrow> ('a, 'p, 'c, 's, 'r) BasicTracer" where
  "setInterface iface t = t\<lparr>interface := Some iface\<rparr>"

text \<open>
  \<open>startSpan(fields)\<close>, lines 43 to 45: when \<open>fields.parent\<close> is truthy and its
  \<open>imp\<close> property is a function, \<open>fields.parent\<close> is overwritten with the value of
  \<open>fields.parent.imp()\<close>.
\<close>

definition resolve_parent :: "span_fields \<Rightarrow> span_fields" where
  "resolve_parent fs =
     (if truthy (parent fs) \<and> js_typeof (get_prop (parent fs) ''imp'') = ''function''
      then fs\<lparr>parent := call0 (get_prop (parent fs) ''imp'')\<rparr>
      else fs)"

text \<open>Lines 46 to 51: the object literal built for the constructor.\<close>

definition startSpan_arg :: "span_fields \<Rightarrow> span_fields" where
  "startSpan_arg fs =
     (let fs' = resolve_parent fs
      in \<lparr>operationName = operationName fs',
          parent = parent fs',
          startTime = startTime fs',
          tags = tags fs'\<rparr>)"

text \<open>
  \<open>startSpan\<close> returns the new span; the caller's \<open>fields\<close> object, which line 44 may
  have changed, is returned beside it. \<open>now\<close> is the value \<open>Date.now()\<close> has during
  the call.
\<close>

definition startSpan ::
    "('a, 'p, 'c, 's, 'r) BasicTracer \<Rightarrow> int \<Rightarrow> span_fields \<Rightarrow> BasicSpan \<times> span_fields" where
  "startSpan t now fs =
     (new_BasicSpan (self_ref t) now (startSpan_arg fs), resolve_parent fs)"

text \<open>
  \<open>inject(span, format, carrier)\<close>: an \<open>if\<close>, an \<open>else if\<close> and no \<open>else\<close>. The value
  is the carrier after the call.
\<close>

definition inject ::
    "('a, 'p, 'c, 's, 'r) BasicTracer \<Rightarrow> 'a \<Rightarrow> string \<Rightarrow> 'c \<Rightarrow> error + 'c" where
  "inject t sp format carrier =
     (case interface t of
        None \<Rightarrow> Inl TypeError
      | Some i \<Rightarrow>
          if format = FORMAT_TEXT_MAP i then inject_impl (textPropagator t) sp carrier
          else if format = FORMAT_BINARY i then inject_impl (binaryPropagator t) sp carrier
          else Inr carrier)"

text \<open>
  \<open>join(operationName, format, carrier)\<close>: \<open>let span\<close> stays \<open>undefined\<close> (\<open>None\<close>)
  when neither branch is taken.
\<close>

definition join ::
    "('a, 'p, 'c, 's, 'r) BasicTracer \<Rightarrow> string \<Rightarrow> string \<Rightarrow> 'c \<Rightarrow> error + 'a option" where
  "join t opName format carrier =
     (case interface t of
        None \<Rightarrow> Inl TypeError
      | Some i \<Rightarrow>
          if format = FORMAT_TEXT_MAP i then map_sum id Some (join_impl (textPropagator t) opName carrier)
          else if format = FORMAT_BINARY i then map_sum id Some (join_impl (binaryPropagator t) opName carrier)
          else Inr None)"

text \<open>\<open>isSample(span, parent)\<close>: the sampler's verdict, and the tracer after the call.\<close>

definition isSample ::
    "('a, 'p, 'c, 's, 'r) BasicTracer \<Rightarrow> 'a \<Rightarrow> 'p \<Rightarrow> bool \<times> ('a, 'p, 'c, 's, 'r) BasicTracer" where
  "isSample t sp par =
     (let (verdict, st) = isSample_impl (sampler t) sp par (sampler_state (sampler t))
      in (verdict, t\<lparr>sampler := (sampler t)\<lparr>sampler_state := st\<rparr>\<rparr>))"

text \<open>
  \<open>record(span) { this._recorder.record(span) }\<close>, named \<open>tracer_record\<close> here: the
  tracer after the call.
\<close>

definition tracer_record ::
    "('a, 'p, 'c, 's, 'r) BasicTracer \<Rightarrow> 'a \<Rightarrow> ('a, 'p, 'c, 's, 'r) BasicTracer" where
  "tracer_record t sp =
     t\<lparr>recorder := (recorder t)\<lparr>recorder_state := record_impl (recorder t) sp (recorder_state (recorder t))\<rparr>\<rparr>"

section \<open>The data model of the specification\<close>

text \<open>
  Modelled from the spec: the SpanContext of section 3, which no source file declares.
  Identifiers are 64-bit unsigned integers; baggage is a string-to-string mapping kept
  in insertion order. A string is the sequence of its UTF-8 bytes.
\<close>

record SpanContext =
  traceId :: "64 word"
  spanId :: "64 word"
  parentId :: "64 word option"
  sampled :: bool
  baggage :: "(string \<times> string) list"

text \<open>
  Modelled from the spec: tag values, a closed variant over string, number and boolean
  (section 9).
\<close>

datatype tag_value = TagStr string | TagNum int | TagBool bool

text \<open>Modelled from the spec: a log entry \<open>{timestamp, event, payload}\<close> (section 3).\<close>

record log_entry =
  timestamp :: int
  event :: string
  payload :: string

text \<open>
  Modelled from the spec: the Span of section 3, the snapshot that \<open>finish\<close> hands to
  \<open>Tracer.record\<close>. The span class of the sources has none of these fields.
\<close>

record Span =
  span_operationName :: string
  span_startTime :: int
  span_finishTime :: "int option"
  span_tags :: "(string \<times> tag_value) list"
  span_logs :: "log_entry list"
  span_context :: SpanContext

text \<open>
  The key pattern \<open>[a-z0-9][-a-z0-9]*\<close>, as the comment above \<open>setBaggageItem\<close>
  (part_000, lines 57 and 58) and section 3 of the specification give it.
\<close>

definition lower_alnum :: "char \<Rightarrow> bool" where
  "lower_alnum c =
     (let n = (of_char c :: nat) in (97 \<le> n \<and> n \<le> 122) \<or> (48 \<le> n \<and> n \<le> 57))"

definition matches_key_pattern :: "string \<Rightarrow> bool" where
  "matches_key_pattern k =
     (case k of
        [] \<Rightarrow> False
      | c # cs \<Rightarrow> lower_alnum c \<and> list_all (\<lambda>x. lower_alnum x \<or> x = CHR ''-'') cs)"

text \<open>
  Modelled from the spec: the invariants of section 3 on a context. Identifiers are
  never zero, every baggage key matches the pattern, and baggage is a mapping (no key
  twice).
\<close>

definition valid_SpanContext :: "SpanContext \<Rightarrow> bool" where
  "valid_SpanContext c =
     (traceId c \<noteq> 0 \<and> spanId c \<noteq> 0 \<and> parentId c \<noteq> Some 0 \<and>
      list_all matches_key_pattern (map fst (baggage c)) \<and>
      distinct (map fst (baggage c)))"

text \<open>
  Modelled from the spec: \<open>newChildContext(parent)\<close> of section 4.1, with the fresh
  random span id as an argument.
\<close>

definition newChildContext :: "64 word \<Rightarrow> SpanContext \<Rightarrow> SpanContext" where
  "newChildContext fresh p =
     \<lparr>traceId = traceId p,
      spanId = fresh,
      parentId = Some (spanId p),
      sampled = sampled p,
      baggage = baggage p\<rparr>"

section \<open>The sampler of the specification\<close>



section \<open>The text map codec of the specification\<close>

text \<open>
  The module \<open>./propagation\<close>, from which \<open>tracer.js\<close> imports both propagators, is
  absent; this section and the next follow sections 4.3 and 4.4 of the specification.
  Where the specification fixes no detail the model chooses one: the identity entry is
  named \<open>ot-tracer-state\<close>, baggage entries carry the prefix \<open>ot-baggage-\<close>,
  identifiers are written in lower-case hexadecimal, the delimiter is a colon, the
  sentinel of an absent parent is \<open>0\<close>, and the sampled flag is \<open>1\<close> or \<open>0\<close>. A text
  map carrier is a JavaScript object: its entries in insertion order, a write to an
  existing key replacing the value in place.
\<close>

text \<open>Modelled from the spec: the name of the identity entry (section 4.3).\<close>

definition STATE_KEY :: string where
  "STATE_KEY = ''ot-tracer-state''"

text \<open>Modelled from the spec: the fixed namespace prefix of baggage entries (section 4.3).\<close>

definition BAGGAGE_PREFIX :: string where
  "BAGGAGE_PREFIX = ''ot-baggage-''"

text \<open>
  Modelled from the spec: the string form of an identifier, one of the delimited
  strings of the identity entry. \<open>hex_digit\<close> is only ever applied to a number below 16.
\<close>

definition hex_digits :: string where
  "hex_digits = ''0123456789abcdef''"

definition hex_digit :: "nat \<Rightarrow> char" where
  "hex_digit d = hex_digits ! d"

fun hex_of_nat :: "nat \<Rightarrow> string" where
  "hex_of_nat n =
     (if n < 16 then [hex_digit n] else hex_of_nat (n div 16) @ [hex_digit (n mod 16)])"

definition render_id :: "64 word \<Rightarrow> string" where
  "render_id w = hex_of_nat (unat w)"

text \<open>
  Modelled from the spec: reading an identifier back. The empty string, a character that
  is no digit and a value that does not fit 64 bits are malformed.
\<close>

fun index_of :: "'a \<Rightarrow> 'a list \<Rightarrow> nat option" where
  "index_of x [] = None"
| "index_of x (y # ys) = (if x = y then Some 0 else map_option Suc (index_of x ys))"

definition hex_value :: "char \<Rightarrow> nat option" where
  "hex_value c = index_of c hex_digits"

fun nat_of_hex :: "nat \<Rightarrow> string \<Rightarrow> nat option" where
  "nat_of_hex acc [] = Some acc"
| "nat_of_hex acc (c # cs) =
     (case hex_value c of None \<Rightarrow> None | Some d \<Rightarrow> nat_of_hex (16 * acc + d) cs)"

definition parse_id :: "string \<Rightarrow> 64 word option" where
  "parse_id s =
     (if s = [] then None
      else case nat_of_hex 0 s of
             None \<Rightarrow> None
           | Some n \<Rightarrow> if n < 2 ^ 64 then Some (of_nat n) else None)"

text \<open>Modelled from the spec: reading the sampled flag of the identity entry back.\<close>

definition parse_flag :: "string \<Rightarrow> bool option" where
  "parse_flag s = (if s = ''1'' then Some True else if s = ''0'' then Some False else None)"

text \<open>Modelled from the spec: the fields of a delimited string.\<close>

fun split_on :: "char \<Rightarrow> string \<Rightarrow> string list" where
  "split_on d [] = [[]]"
| "split_on d (c # cs) =
     (if c = d then [] # split_on d cs
      else case split_on d cs of
             [] \<Rightarrow> [[c]]
           | w # ws \<Rightarrow> (c # w) # ws)"

text \<open>
  Modelled from the spec: the value of the identity entry: \<open>traceId, spanId, parentId
  (sentinel if absent), sampled\<close> as delimited strings (section 4.3).
\<close>

definition render_state :: "SpanContext \<Rightarrow> string" where
  "render_state c =
     render_id (traceId c) @ '':'' @ render_id (spanId c) @ '':'' @
     (case parentId c of None \<Rightarrow> ''0'' | Some p \<Rightarrow> render_id p) @ '':'' @
     (if sampled c then ''1'' else ''0'')"

text \<open>
  Modelled from the spec: parsing the identity entry; \<open>None\<close> when it is malformed
  (section 4.3).
\<close>

definition parse_state :: "string \<Rightarrow> (64 word \<times> 64 word \<times> 64 word option \<times> bool) option" where
  "parse_state v =
     (case split_on CHR '':'' v of
        [a, b, c, d] \<Rightarrow>
          (case (parse_id a, parse_id b, parse_id c, parse_flag d) of
             (Some tid, Some sid, Some pid, Some smp) \<Rightarrow>
               Some (tid, sid, if pid = 0 then None else Some pid, smp)
           | _ \<Rightarrow> None)
      | _ \<Rightarrow> None)"

text \<open>
  Modelled from the spec: \<open>inject(context, carrier)\<close> of section 4.3: one identity entry,
  then one entry per baggage item under the prefix. Entries under other keys stay.
\<close>

definition textMapInject :: "SpanContext \<Rightarrow> (string \<times> string) list \<Rightarrow> (string \<times> string) list" where
  "textMapInject c carrier =
     foldl (\<lambda>acc (k, v). AList.update (BAGGAGE_PREFIX @ k) v acc)
       (AList.update STATE_KEY (render_state c) carrier)
       (baggage c)"

text \<open>
  Modelled from the spec: the baggage of a carrier: the entries whose key starts with
  the prefix, with the prefix stripped; other entries are ignored (section 4.3).
\<close>

definition extract_baggage :: "(string \<times> string) list \<Rightarrow> (string \<times> string) list" where
  "extract_baggage carrier =
     map (\<lambda>(k, v). (drop (length BAGGAGE_PREFIX) k, v))
       (filter (\<lambda>(k, v). prefix BAGGAGE_PREFIX k) carrier)"

text \<open>
  Modelled from the spec: \<open>extract(carrier)\<close> of section 4.3; \<open>None\<close> is "no context",
  for a missing or malformed identity entry.
\<close>

definition textMapExtract :: "(string \<times> string) list \<Rightarrow> SpanContext option" where
  "textMapExtract carrier =
     (case map_of carrier STATE_KEY of
        None \<Rightarrow> None
      | Some v \<Rightarrow>
          (case parse_state v of
             None \<Rightarrow> None
           | Some (tid, sid, pid, smp) \<Rightarrow>
               Some \<lparr>traceId = tid, spanId = sid, parentId = pid, sampled = smp,
                     baggage = extract_baggage carrier\<rparr>))"

text \<open>
  Modelled from the spec: the new context of the contract of section 4.3: what the
  caller's subsequent \<open>newChildContext\<close> makes of the extracted context, when there is
  one.
\<close>

definition textMapChild :: "64 word \<Rightarrow> (string \<times> string) list \<Rightarrow> SpanContext option" where
  "textMapChild fresh carrier = map_option (newChildContext fresh) (textMapExtract carrier)"

section \<open>The binary codec of the specification\<close>

text \<open>
  The layout is the one section 4.4 fixes. Where it fixes no detail the model chooses
  one: every length and the baggage count are variable-length integers, seven bits to a
  byte, low group first, the high bit set on every byte but the last; a flag byte is
  read as false when it is zero; bytes after the last baggage item are not looked at.
\<close>

type_synonym byte = "8 word"

text \<open>
  Modelled from the spec: the binary carrier of section 6, an object with one byte-buffer
  field.
\<close>

record binary_carrier =
  buffer :: "byte list"

text \<open>Modelled from the spec: a 64-bit field, eight bytes, big-endian (section 4.4).\<close>

definition u64_bytes :: "64 word \<Rightarrow> byte list" where
  "u64_bytes w = map (\<lambda>i. ucast (drop_bit (8 * i) w)) [7, 6, 5, 4, 3, 2, 1, 0]"

definition u64_of_bytes :: "byte list \<Rightarrow> 64 word" where
  "u64_of_bytes bs = foldl (\<lambda>acc b. push_bit 8 acc OR ucast b) 0 bs"

text \<open>Modelled from the spec: the variable-length integer of section 4.4.\<close>

fun varint :: "nat \<Rightarrow> byte list" where
  "varint n = (if n < 128 then [of_nat n] else of_nat (128 + n mod 128) # varint (n div 128))"

text \<open>
  Modelled from the spec: the bytes of a string (a string is the sequence of its UTF-8
  bytes) and a baggage item: key length, key bytes, value length, value bytes
  (section 4.4).
\<close>

definition bytes_of_string :: "string \<Rightarrow> byte list" where
  "bytes_of_string s = map (\<lambda>c. of_nat (of_char c)) s"

definition string_of_bytes :: "byte list \<Rightarrow> string" where
  "string_of_bytes bs = map (\<lambda>b. char_of (unat b)) bs"

definition put_string :: "string \<Rightarrow> byte list" where
  "put_string s = varint (length s) @ bytes_of_string s"

definition put_item :: "string \<times> string \<Rightarrow> byte list" where
  "put_item kv = put_string (fst kv) @ put_string (snd kv)"

text \<open>Modelled from the spec: the byte layout of section 4.4.\<close>

definition binaryEncode :: "SpanContext \<Rightarrow> byte list" where
  "binaryEncode c =
     u64_bytes (traceId c) @
     u64_bytes (spanId c) @
     [if parentId c = None then 0 else 1] @
     u64_bytes (case parentId c of None \<Rightarrow> 0 | Some p \<Rightarrow> p) @
     [if sampled c then 1 else 0] @
     varint (length (baggage c)) @
     concat (map put_item (baggage c))"

text \<open>
  Modelled from the spec: \<open>inject(context, carrier)\<close> of section 4.4: the buffer field
  is replaced wholesale.
\<close>

definition binaryInject :: "SpanContext \<Rightarrow> binary_carrier \<Rightarrow> binary_carrier" where
  "binaryInject c carrier = carrier\<lparr>buffer := binaryEncode c\<rparr>"

text \<open>
  Modelled from the spec: the reads of the decoder (section 4.4, "every length-prefixed
  read must be bounds-checked before being performed"). A read takes the unread bytes
  and yields the value read and the bytes left, or \<open>None\<close> when the buffer holds fewer
  bytes than the read demands. \<open>take_bytes\<close> compares the demand with the bytes at
  hand before it touches them; \<open>read_u8\<close> and \<open>read_varint\<close> take a byte only from a
  non-empty buffer. Every other read is built from these three with \<open>bind_read\<close>,
  which stops at the first read that fails.
\<close>

type_synonym 'a reader = "byte list \<Rightarrow> ('a \<times> byte list) option"

definition return_read :: "'a \<Rightarrow> 'a reader" where
  "return_read x bs = Some (x, bs)"

definition bind_read :: "'a reader \<Rightarrow> ('a \<Rightarrow> 'b reader) \<Rightarrow> 'b reader" where
  "bind_read p f bs = (case p bs of None \<Rightarrow> None | Some (x, rest) \<Rightarrow> f x rest)"

definition take_bytes :: "nat \<Rightarrow> (byte list) reader" where
  "take_bytes n bs = (if n \<le> length bs then Some (take n bs, drop n bs) else None)"

definition read_u8 :: "byte reader" where
  "read_u8 bs = (case bs of [] \<Rightarrow> None | b # rest \<Rightarrow> Some (b, rest))"

fun read_varint :: "nat reader" where
  "read_varint [] = None"
| "read_varint (b # bs) =
     (if unat b < 128 then Some (unat b, bs)
      else case read_varint bs of
             None \<Rightarrow> None
           | Some (n, rest) \<Rightarrow> Some (unat b - 128 + 128 * n, rest))"

text \<open>Modelled from the spec: reading a 64-bit field (section 4.4).\<close>

definition read_u64 :: "(64 word) reader" where
  "read_u64 = bind_read (take_bytes 8) (\<lambda>raw. return_read (u64_of_bytes raw))"

text \<open>
  Modelled from the spec: reading a length-prefixed string: the declared length is
  compared with the bytes left before they are taken (section 4.4).
\<close>

definition read_string :: "string reader" where
  "read_string =
     bind_read read_varint (\<lambda>n.
     bind_read (take_bytes n) (\<lambda>raw.
     return_read (string_of_bytes raw)))"

text \<open>Modelled from the spec: reading as many baggage items as the count declares.\<close>

fun read_items :: "nat \<Rightarrow> ((string \<times> string) list) reader" where
  "read_items 0 = return_read []"
| "read_items (Suc n) =
     bind_read read_string (\<lambda>k.
     bind_read read_string (\<lambda>v.
     bind_read (read_items n) (\<lambda>items.
     return_read ((k, v) # items))))"

text \<open>Modelled from the spec: reading the whole layout of section 4.4.\<close>

definition read_context :: "SpanContext reader" where
  "read_context =
     bind_read read_u64 (\<lambda>tid.
     bind_read read_u64 (\<lambda>sid.
     bind_read read_u8 (\<lambda>flag.
     bind_read read_u64 (\<lambda>pid.
     bind_read read_u8 (\<lambda>smp.
     bind_read read_varint (\<lambda>count.
     bind_read (read_items count) (\<lambda>items.
     return_read
       \<lparr>traceId = tid, spanId = sid,
        parentId = (if flag = 0 then None else Some pid),
        sampled = (smp \<noteq> 0),
        baggage = items\<rparr>)))))))"

text \<open>
  Modelled from the spec: \<open>extract(carrier)\<close> of section 4.4: the context, or
  \<open>MalformedCarrier\<close> when a read ran out of bytes.
\<close>

definition binaryExtract :: "binary_carrier \<Rightarrow> error + SpanContext" where
  "binaryExtract carrier =
     (case read_context (buffer carrier) of
        None \<Rightarrow> Inl MalformedCarrier
      | Some (c, rest) \<Rightarrow> Inr c)"

text \<open>
  Modelled from the spec: the new context of the contract of section 4.3, for the binary
  codec: what the caller's subsequent \<open>newChildContext\<close> makes of the extracted context.
\<close>

definition binaryChild :: "64 word \<Rightarrow> binary_carrier \<Rightarrow> error + SpanContext" where
  "binaryChild fresh carrier = map_sum id (newChildContext fresh) (binaryExtract carrier)"

text \<open>
  Modelled from the spec: the binary propagator object a tracer holds. Its \<open>inject\<close>
  writes the buffer; its \<open>join\<close> extracts and makes the child context, \<open>fresh\<close> being
  the span id it draws.
\<close>

definition BinaryPropagator :: "64 word \<Rightarrow> (SpanContext, binary_carrier) propagator_obj" where
  "BinaryPropagator fresh =
     \<lparr>inject_impl = (\<lambda>c carrier. Inr (binaryInject c carrier)),
      join_impl = (\<lambda>opName carrier. binaryChild fresh carrier)\<rparr>"

section \<open>Sample objects\<close>

text \<open>
  Collaborators to run the tracer on: a recorder that appends what it receives to a
  list, a sampler that answers a fixed verdict and counts its invocations, and a
  propagator that writes the span into the carrier and reads it back.
\<close>

definition list_recorder :: "('a, 'a list) recorder_obj" where
  "list_recorder = \<lparr>record_impl = (\<lambda>sp received. received @ [sp]), recorder_state = []\<rparr>"

definition counting_sampler :: "bool \<Rightarrow> ('a, 'p, nat) sampler_obj" where
  "counting_sampler verdict =
     \<lparr>isSample_impl = (\<lambda>sp par n. (verdict, Suc n)), sampler_state = 0\<rparr>"

definition slot_propagator :: "('a, 'a option) propagator_obj" where
  "slot_propagator =
     \<lparr>inject_impl = (\<lambda>sp carrier. Inr (Some sp)),
      join_impl = (\<lambda>opName carrier.
         case carrier of None \<Rightarrow> Inl MalformedCarrier | Some sp \<Rightarrow> Inr sp)\<rparr>"

definition opentracing :: Interface where
  "opentracing = \<lparr>FORMAT_TEXT_MAP = ''text_map'', FORMAT_BINARY = ''binary''\<rparr>"

definition sample_tracer :: "bool \<Rightarrow> (Span, Span option, Span option, nat, Span list) BasicTracer" where
  "sample_tracer verdict =
     setInterface opentracing
       (new_BasicTracer 1 (counting_sampler verdict) list_recorder
          slot_propagator slot_propagator None None)"

definition unsampled_span :: Span where
  "unsampled_span =
     \<lparr>span_operationName = ''op-a'',
      span_startTime = 10,
      span_finishTime = Some 25,
      span_tags = [(''component'', TagStr ''db'')],
      span_logs = [\<lparr>timestamp = 12, event = ''read'', payload = ''1000''\<rparr>],
      span_context = \<lparr>traceId = 1, spanId = 2, parentId = None, sampled = False, baggage = []\<rparr>\<rparr>"

definition sample_context :: "64 word \<Rightarrow> SpanContext" where
  "sample_context tid =
     \<lparr>traceId = tid, spanId = 0x2A, parentId = Some 7, sampled = True,
      baggage = [(''a'', ''1''), (''user-id'', ''x y'')]\<rparr>"

definition root_fields :: span_fields where
  "root_fields =
     \<lparr>operationName = JStr ''op-a'', parent = JUndefined,
      startTime = JUndefined, tags = JUndefined\<rparr>"

definition interface_span :: jsval where
  "interface_span = JObj [(''imp'', JFun (JObj [(''traceId'', JNum 7)]))]"




definition sampled_parent :: "bool \<Rightarrow> jsval" where
  "sampled_parent b =
     JObj [(''traceId'', JNum 7), (''spanId'', JNum 8), (''sampled'', JBool b)]"

section \<open>A property of readers\<close>

text \<open>
  A reader keeps to a prefix of its input when every successful read splits the input
  into the bytes it used and the bytes it returns, gives the same value whatever
  follows the used bytes, and fails on every input that is cut inside them.
\<close>

definition reads_prefix :: "'a reader \<Rightarrow> bool" where
  "reads_prefix p =
     (\<forall>bs x rest. p bs = Some (x, rest) \<longrightarrow>
        (\<exists>used. bs = used @ rest \<and>
                (\<forall>tail. p (used @ tail) = Some (x, tail)) \<and>
                (\<forall>n<length used. p (take n used) = None)))"

section \<open>Parent resolution in startSpan\<close>

text \<open>
  Claim C10. When \<open>fields.parent\<close> is present (truthy) and \<open>fields.parent.imp\<close> is a
  function, \<open>startSpan\<close> replaces the parent by the value of \<open>fields.parent.imp()\<close>
  before it constructs the span: both the object given to the constructor and the
  caller's \<open>fields\<close> hold that value. Otherwise the parent is used as given and
  \<open>fields\<close> is left as it was. The other three fields go to the constructor unchanged.
\<close>

theorem startSpan_resolves_parent:
  "(truthy (parent fs) \<and> js_typeof (get_prop (parent fs) ''imp'') = ''function'' \<longrightarrow>
      parent (startSpan_arg fs) = call0 (get_prop (parent fs) ''imp'') \<and>
      parent (snd (startSpan t now fs)) = call0 (get_prop (parent fs) ''imp'')) \<and>
   (\<not> (truthy (parent fs) \<and> js_typeof (get_prop (parent fs) ''imp'') = ''function'') \<longrightarrow>
      parent (startSpan_arg fs) = parent fs \<and> snd (startSpan t now fs) = fs) \<and>
   fst (startSpan t now fs) = new_BasicSpan (self_ref t) now (startSpan_arg fs) \<and>
   operationName (startSpan_arg fs) = operationName fs \<and>
   startTime (startSpan_arg fs) = startTime fs \<and>
   tags (startSpan_arg fs) = tags fs"
  by (simp add: startSpan_def startSpan_arg_def resolve_parent_def Let_def)

text \<open>
  Claim C10 at three inputs: a parent with an \<open>imp\<close> method, a parent object without
  one, and no parent.
\<close>

theorem startSpan_resolves_parent_witness:
  "parent (startSpan_arg (root_fields\<lparr>parent := interface_span\<rparr>)) = JObj [(''traceId'', JNum 7)] \<and>
   parent (snd (startSpan (sample_tracer True) 0 (root_fields\<lparr>parent := interface_span\<rparr>)))
     = JObj [(''traceId'', JNum 7)] \<and>
   parent (startSpan_arg (root_fields\<lparr>parent := JObj [(''traceId'', JNum 7)]\<rparr>))
     = JObj [(''traceId'', JNum 7)] \<and>
   snd (startSpan (sample_tracer True) 0 root_fields) = root_fields"
  using startSpan_resolves_parent [of "root_fields\<lparr>parent := interface_span\<rparr>" "sample_tracer True" 0]
        startSpan_resolves_parent [of "root_fields\<lparr>parent := JObj [(''traceId'', JNum 7)]\<rparr>" "sample_tracer True" 0]
        startSpan_resolves_parent [of root_fields "sample_tracer True" 0]
  by (simp add: root_fields_def interface_span_def)

section \<open>Handing a span to the recorder\<close>

text \<open>
  Claim C2, as the code has it. \<open>record(span)\<close> hands every span to the recorder,
  whatever its \<open>sampled\<close> flag: the recorder's state after the call is what its
  \<open>record\<close> method makes of the span, and nothing else of the tracer changes. The span
  itself is passed as it is.
\<close>

theorem record_forwards_every_span:
  "recorder_state (recorder (tracer_record t sp))
     = record_impl (recorder t) sp (recorder_state (recorder t)) \<and>
   record_impl (recorder (tracer_record t sp)) = record_impl (recorder t) \<and>
   sampler (tracer_record t sp) = sampler t \<and>
   binaryPropagator (tracer_record t sp) = binaryPropagator t \<and>
   textPropagator (tracer_record t sp) = textPropagator t \<and>
   interface (tracer_record t sp) = interface t \<and>
   self_ref (tracer_record t sp) = self_ref t"
  by (simp add: tracer_record_def)

text \<open>
  Claim C2 as stated fails: a finished span whose context has \<open>sampled = false\<close>, with
  its tags and logs, reaches a recorder that had received nothing.
\<close>

theorem record_unsampled_reaches_recorder:
  "sampled (span_context unsampled_span) = False \<and>
   recorder_state (recorder (sample_tracer True)) = [] \<and>
   recorder_state (recorder (tracer_record (sample_tracer True) unsampled_span)) = [unsampled_span]"
  by (simp add: tracer_record_def sample_tracer_def setInterface_def new_BasicTracer_def
        list_recorder_def unsampled_span_def)

section \<open>Dispatch on the format token\<close>

text \<open>
  Claim C4, as the code has it. Once the interface is set, a format token that is
  neither \<open>FORMAT_TEXT_MAP\<close> nor \<open>FORMAT_BINARY\<close> makes \<open>inject\<close> return normally with
  the carrier untouched and \<open>join\<close> return \<open>undefined\<close>; neither raises an error, and
  neither propagator is called.
\<close>

theorem unknown_format_is_ignored:
  "interface t = Some i \<Longrightarrow> format \<noteq> FORMAT_TEXT_MAP i \<Longrightarrow> format \<noteq> FORMAT_BINARY i \<Longrightarrow>
   inject t sp format carrier = Inr carrier \<and> join t opName format carrier = Inr None"
  by (simp add: inject_def join_def)

text \<open>Claim C4, as the code has it, at the token \<open>http_headers\<close>.\<close>

theorem unknown_format_is_ignored_witness:
  "inject (sample_tracer True) unsampled_span ''http_headers'' None = Inr None \<and>
   join (sample_tracer True) ''op-b'' ''http_headers'' None = Inr None"
proof -
  have i: "interface (sample_tracer True) = Some opentracing"
    by (simp add: sample_tracer_def setInterface_def)
  have a: "''http_headers'' \<noteq> FORMAT_TEXT_MAP opentracing"
    by (simp add: opentracing_def)
  have b: "''http_headers'' \<noteq> FORMAT_BINARY opentracing"
    by (simp add: opentracing_def)
  show ?thesis
    using unknown_format_is_ignored [OF i a b] by simp
qed

text \<open>
  Claim C4 as stated fails: with the token \<open>http_headers\<close>, which is neither of the two
  formats, \<open>inject\<close> and \<open>join\<close> do not fail with \<open>UnsupportedFormat\<close>.
\<close>

theorem unknown_format_raises_nothing:
  "''http_headers'' \<noteq> FORMAT_TEXT_MAP opentracing \<and>
   ''http_headers'' \<noteq> FORMAT_BINARY opentracing \<and>
   interface (sample_tracer True) = Some opentracing \<and>
   inject (sample_tracer True) unsampled_span ''http_headers'' None \<noteq> Inl UnsupportedFormat \<and>
   join (sample_tracer True) ''op-b'' ''http_headers'' None \<noteq> Inl UnsupportedFormat"
  by (simp add: inject_def join_def sample_tracer_def setInterface_def opentracing_def)

text \<open>The two branches that are taken, and the call before \<open>setInterface\<close>.\<close>

lemma inject_text_map:
  "interface t = Some i \<Longrightarrow>
   inject t sp (FORMAT_TEXT_MAP i) carrier = inject_impl (textPropagator t) sp carrier"
  by (simp add: inject_def)

lemma inject_binary:
  "interface t = Some i \<Longrightarrow> FORMAT_BINARY i \<noteq> FORMAT_TEXT_MAP i \<Longrightarrow>
   inject t sp (FORMAT_BINARY i) carrier = inject_impl (binaryPropagator t) sp carrier"
  by (simp add: inject_def)

lemma join_text_map:
  "interface t = Some i \<Longrightarrow>
   join t opName (FORMAT_TEXT_MAP i) carrier
     = map_sum id Some (join_impl (textPropagator t) opName carrier)"
  by (simp add: join_def)

lemma join_binary:
  "interface t = Some i \<Longrightarrow> FORMAT_BINARY i \<noteq> FORMAT_TEXT_MAP i \<Longrightarrow>
   join t opName (FORMAT_BINARY i) carrier
     = map_sum id Some (join_impl (binaryPropagator t) opName carrier)"
  by (simp add: join_def)

lemma no_interface_TypeError:
  "interface t = None \<Longrightarrow>
   inject t sp format carrier = Inl TypeError \<and> join t opName format carrier = Inl TypeError"
  by (simp add: inject_def join_def)

section \<open>Span creation and the sampler\<close>

text \<open>
  \<open>startSpan\<close> reads nothing of the sampler: the span and the fields it returns are the
  same whatever sampler the tracer holds.
\<close>

lemma startSpan_ignores_sampler:
  "startSpan (t\<lparr>sampler := s\<rparr>) now fs = startSpan t now fs"
  by (simp add: startSpan_def)

text \<open>
  Claim C6, the code at a root span and at a child span. A tracer whose sampler answers
  true and one whose sampler answers false both return, for a root, a span that holds
  the tracer and no sampled flag; and a child created from a parent with \<open>sampled\<close>
  true is the same span as a child created from a parent with \<open>sampled\<close> false, so
  nothing of the parent's flag is carried.
\<close>

theorem startSpan_takes_no_sampling_decision:
  "fst (isSample (sample_tracer True) unsampled_span None) = True \<and>
   fst (isSample (sample_tracer False) unsampled_span None) = False \<and>
   fst (startSpan (sample_tracer True) 0 root_fields) = \<lparr>tracer_ref = 1\<rparr> \<and>
   fst (startSpan (sample_tracer False) 0 root_fields) = \<lparr>tracer_ref = 1\<rparr> \<and>
   fst (startSpan (sample_tracer True) 0 (root_fields\<lparr>parent := sampled_parent True\<rparr>))
     = \<lparr>tracer_ref = 1\<rparr> \<and>
   fst (startSpan (sample_tracer True) 0 (root_fields\<lparr>parent := sampled_parent False\<rparr>))
     = \<lparr>tracer_ref = 1\<rparr>"
  by (simp add: startSpan_def isSample_def sample_tracer_def setInterface_def
        new_BasicTracer_def counting_sampler_def new_BasicSpan_def)

section \<open>What a span keeps\<close>

text \<open>
  Claim C9, the code at any input: the span \<open>startSpan\<close> returns holds the reference to
  its tracer and nothing of \<open>operationName\<close>, \<open>startTime\<close> or \<open>tags\<close>.
\<close>

theorem startSpan_keeps_only_tracer:
  "fst (startSpan t now fs) = \<lparr>tracer_ref = self_ref t\<rparr>"
  by (simp add: startSpan_def new_BasicSpan_def)

text \<open>
  Claim C5, the code at two keys: \<open>setBaggageItem\<close> returns normally for a key outside
  the pattern, and after it has been called with a key inside the pattern the span is
  what it was and \<open>getBaggageItem\<close> still yields \<open>undefined\<close>.
\<close>

theorem setBaggageItem_stores_nothing:
  "\<not> matches_key_pattern ''Bad Key!'' \<and>
   setBaggageItem ''Bad Key!'' ''v'' s = Inr s \<and>
   matches_key_pattern ''ota'' \<and>
   setBaggageItem ''ota'' ''v1'' s = Inr s \<and>
   getBaggageItem ''ota'' s = JUndefined"
  by (simp add: setBaggageItem_def getBaggageItem_def matches_key_pattern_def lower_alnum_def)

text \<open>
  Claim C7, the code at a parent context with baggage \<open>{a: 1}\<close>: the child created from
  it yields \<open>undefined\<close> for the key \<open>a\<close>.
\<close>

theorem child_has_no_baggage:
  "getBaggageItem ''a''
     (fst (startSpan t now
        \<lparr>operationName = JStr ''child'',
         parent = JObj [(''baggage'', JObj [(''a'', JStr ''1'')])],
         startTime = JUndefined, tags = JUndefined\<rparr>)) = JUndefined"
  by (simp add: getBaggageItem_def)

section \<open>The sampling decision\<close>





section \<open>The text map codec: rendering and parsing\<close>

declare hex_of_nat.simps [simp del]

lemma index_of_nth: "distinct xs \<Longrightarrow> d < length xs \<Longrightarrow> index_of (xs ! d) xs = Some d"
proof (induction xs arbitrary: d)
  case Nil
  then show ?case by simp
next
  case (Cons x xs)
  show ?case
  proof (cases d)
    case 0
    then show ?thesis by simp
  next
    case (Suc k)
    with Cons.prems have "k < length xs" and "distinct xs" and "xs ! k \<noteq> x"
      by auto
    with Cons.IH [of k] Suc show ?thesis by simp
  qed
qed

lemma hex_value_hex_digit: "d < 16 \<Longrightarrow> hex_value (hex_digit d) = Some d"
  unfolding hex_value_def hex_digit_def
  by (rule index_of_nth) (simp_all add: hex_digits_def)

lemma hex_digit_not_colon: "d < 16 \<Longrightarrow> hex_digit d \<noteq> CHR '':''"
proof
  assume d: "d < 16" and "hex_digit d = CHR '':''"
  then have "hex_value (hex_digit d) = hex_value CHR '':''" by simp
  with d show False by (simp add: hex_value_hex_digit) (simp add: hex_value_def hex_digits_def)
qed

lemma hex_of_nat_small: "n < 16 \<Longrightarrow> hex_of_nat n = [hex_digit n]"
  by (subst hex_of_nat.simps) simp

lemma hex_of_nat_large:
  "\<not> n < 16 \<Longrightarrow> hex_of_nat n = hex_of_nat (n div 16) @ [hex_digit (n mod 16)]"
  by (subst hex_of_nat.simps) simp

lemma nat_of_hex_append:
  "nat_of_hex acc (xs @ ys) = (case nat_of_hex acc xs of None \<Rightarrow> None | Some a \<Rightarrow> nat_of_hex a ys)"
  by (induction xs arbitrary: acc) (simp_all split: option.splits)

lemma nat_of_hex_hex_of_nat: "nat_of_hex 0 (hex_of_nat n) = Some n"
proof (induction n rule: hex_of_nat.induct)
  case (1 n)
  show ?case
  proof (cases "n < 16")
    case True
    then show ?thesis by (simp add: hex_of_nat_small hex_value_hex_digit)
  next
    case False
    have ih: "nat_of_hex 0 (hex_of_nat (n div 16)) = Some (n div 16)"
      using False by (rule 1)
    have "n mod 16 < 16" by simp
    then have d: "hex_value (hex_digit (n mod 16)) = Some (n mod 16)"
      by (rule hex_value_hex_digit)
    show ?thesis
      by (simp add: hex_of_nat_large [OF False] nat_of_hex_append ih d)
  qed
qed

lemma hex_of_nat_not_Nil: "hex_of_nat n \<noteq> []"
  by (cases "n < 16") (simp_all add: hex_of_nat_small hex_of_nat_large)

lemma colon_notin_hex_of_nat: "CHR '':'' \<notin> set (hex_of_nat n)"
proof (induction n rule: hex_of_nat.induct)
  case (1 n)
  show ?case
  proof (cases "n < 16")
    case True
    then show ?thesis using hex_digit_not_colon [of n] by (auto simp: hex_of_nat_small)
  next
    case False
    have "CHR '':'' \<notin> set (hex_of_nat (n div 16))" using False by (rule 1)
    moreover have "hex_digit (n mod 16) \<noteq> CHR '':''" by (rule hex_digit_not_colon) simp
    ultimately show ?thesis by (auto simp: hex_of_nat_large [OF False])
  qed
qed

lemma parse_id_render_id: "parse_id (render_id w) = Some w"
proof -
  have "unat w < 2 ^ 64" using unsigned_less [of w] by simp
  then show ?thesis
    by (simp add: parse_id_def render_id_def hex_of_nat_not_Nil nat_of_hex_hex_of_nat)
qed

lemma colon_notin_render_id: "CHR '':'' \<notin> set (render_id w)"
  by (simp add: render_id_def colon_notin_hex_of_nat)

lemma split_on_no_delim: "d \<notin> set xs \<Longrightarrow> split_on d xs = [xs]"
  by (induction xs) auto

lemma split_on_append:
  "d \<notin> set xs \<Longrightarrow> split_on d (xs @ d # ys) = xs # split_on d ys"
  by (induction xs) auto

lemma split_render_state:
  "split_on CHR '':'' (render_state c) =
     [render_id (traceId c), render_id (spanId c),
      (case parentId c of None \<Rightarrow> ''0'' | Some p \<Rightarrow> render_id p),
      (if sampled c then ''1'' else ''0'')]"
proof -
  let ?p = "case parentId c of None \<Rightarrow> ''0'' | Some p \<Rightarrow> render_id p"
  let ?s = "if sampled c then ''1'' else ''0''"
  have p: "CHR '':'' \<notin> set ?p"
    by (cases "parentId c") (simp_all add: colon_notin_render_id)
  have s: "CHR '':'' \<notin> set ?s" by simp
  have "render_state c
          = render_id (traceId c) @ CHR '':'' # (render_id (spanId c) @ CHR '':'' # (?p @ CHR '':'' # ?s))"
    by (simp add: render_state_def)
  then show ?thesis
    by (simp only: split_on_append [OF colon_notin_render_id] split_on_append [OF p]
          split_on_no_delim [OF s])
qed

lemma parse_id_zero: "parse_id ''0'' = Some 0"
  by (simp add: parse_id_def hex_value_def hex_digits_def)

lemma parse_state_render_state:
  "parentId c \<noteq> Some 0 \<Longrightarrow>
   parse_state (render_state c) = Some (traceId c, spanId c, parentId c, sampled c)"
  by (cases "parentId c")
     (simp_all add: parse_state_def split_render_state parse_id_render_id parse_id_zero parse_flag_def)

lemma update_fresh_key: "k \<notin> fst ` set al \<Longrightarrow> AList.update k v al = al @ [(k, v)]"
  by (induction al) auto

lemma inject_baggage_fresh:
  "distinct (map fst b) \<Longrightarrow>
   (\<forall>k \<in> fst ` set b. BAGGAGE_PREFIX @ k \<notin> fst ` set acc) \<Longrightarrow>
   foldl (\<lambda>acc (k, v). AList.update (BAGGAGE_PREFIX @ k) v acc) acc b
     = acc @ map (\<lambda>(k, v). (BAGGAGE_PREFIX @ k, v)) b"
proof (induction b arbitrary: acc)
  case Nil
  show ?case by simp
next
  case (Cons kv b)
  obtain k v where kv: "kv = (k, v)" by (cases kv)
  have fresh: "BAGGAGE_PREFIX @ k \<notin> fst ` set acc"
    using Cons.prems(2) by (simp add: kv)
  have d: "distinct (map fst b)" and knb: "k \<notin> fst ` set b"
    using Cons.prems(1) by (simp_all add: kv)
  have "\<forall>k' \<in> fst ` set b. BAGGAGE_PREFIX @ k' \<notin> fst ` set (acc @ [(BAGGAGE_PREFIX @ k, v)])"
    using Cons.prems(2) knb by (auto simp: kv)
  from Cons.IH [OF d this] show ?case
    by (simp add: kv update_fresh_key [OF fresh])
qed

lemma STATE_KEY_not_baggage: "\<not> prefix BAGGAGE_PREFIX STATE_KEY"
  by (simp add: BAGGAGE_PREFIX_def STATE_KEY_def)

lemma prefixed_not_STATE_KEY: "BAGGAGE_PREFIX @ k \<noteq> STATE_KEY"
proof
  assume "BAGGAGE_PREFIX @ k = STATE_KEY"
  then have "STATE_KEY = BAGGAGE_PREFIX @ k" by (rule sym)
  then have "prefix BAGGAGE_PREFIX STATE_KEY" by (rule prefixI)
  with STATE_KEY_not_baggage show False by simp
qed

lemma textMapInject_empty:
  "distinct (map fst (baggage c)) \<Longrightarrow>
   textMapInject c [] = (STATE_KEY, render_state c) # map (\<lambda>(k, v). (BAGGAGE_PREFIX @ k, v)) (baggage c)"
proof -
  assume d: "distinct (map fst (baggage c))"
  have "\<forall>k \<in> fst ` set (baggage c). BAGGAGE_PREFIX @ k \<notin> fst ` set [(STATE_KEY, render_state c)]"
    by (simp add: prefixed_not_STATE_KEY)
  from inject_baggage_fresh [OF d this] show ?thesis
    by (simp add: textMapInject_def)
qed

lemma extract_baggage_prefixed:
  "extract_baggage (map (\<lambda>(k, v). (BAGGAGE_PREFIX @ k, v)) b) = b"
  by (induction b) (auto simp: extract_baggage_def)

lemma extract_baggage_Cons_state:
  "extract_baggage ((STATE_KEY, v) # al) = extract_baggage al"
  by (simp add: extract_baggage_def STATE_KEY_not_baggage)

lemma textMapExtract_textMapInject:
  assumes "distinct (map fst (baggage c))" and "parentId c \<noteq> Some 0"
  shows "textMapExtract (textMapInject c []) = Some c"
  by (simp add: textMapExtract_def textMapInject_empty [OF assms(1)]
        parse_state_render_state [OF assms(2)] extract_baggage_Cons_state extract_baggage_prefixed)

section \<open>The binary codec: encoding and decoding\<close>

declare varint.simps [simp del]

lemma length_u64_bytes: "length (u64_bytes w) = 8"
  by (simp add: u64_bytes_def)

lemma u64_step:
  "push_bit 8 (drop_bit (8 + k) w) OR ucast (ucast (drop_bit k w) :: byte) = drop_bit k (w :: 64 word)"
proof (rule bit_word_eqI)
  fix n assume "n < LENGTH(64)"
  then have n64: "n < 64" by simp
  show "bit (push_bit 8 (drop_bit (8 + k) w) OR ucast (ucast (drop_bit k w) :: byte)) n = bit (drop_bit k w) n"
  proof (cases "n < 8")
    case True
    with n64 show ?thesis by (simp add: bit_simps)
  next
    case False
    then have "8 + k + (n - 8) = k + n" and "8 + (n - 8) = n" by simp_all
    with False n64 show ?thesis by (simp add: bit_simps ac_simps)
  qed
qed

lemma u64_top: "ucast (ucast (drop_bit 56 w) :: byte) = (drop_bit 56 w :: 64 word)"
  using u64_step [of 56 w] by simp

lemma u64_of_bytes_u64_bytes: "u64_of_bytes (u64_bytes w) = w"
proof -
  have s: "push_bit 8 (drop_bit 56 w) OR ucast (ucast (drop_bit 48 w) :: byte) = drop_bit 48 w"
          "push_bit 8 (drop_bit 48 w) OR ucast (ucast (drop_bit 40 w) :: byte) = drop_bit 40 w"
          "push_bit 8 (drop_bit 40 w) OR ucast (ucast (drop_bit 32 w) :: byte) = drop_bit 32 w"
          "push_bit 8 (drop_bit 32 w) OR ucast (ucast (drop_bit 24 w) :: byte) = drop_bit 24 w"
          "push_bit 8 (drop_bit 24 w) OR ucast (ucast (drop_bit 16 w) :: byte) = drop_bit 16 w"
          "push_bit 8 (drop_bit 16 w) OR ucast (ucast (drop_bit 8 w) :: byte) = drop_bit 8 w"
          "push_bit 8 (drop_bit 8 w) OR ucast (ucast w :: byte) = w"
    using u64_step [of 48 w] u64_step [of 40 w] u64_step [of 32 w] u64_step [of 24 w]
          u64_step [of 16 w] u64_step [of 8 w] u64_step [of 0 w]
    by simp_all
  show ?thesis
    by (simp add: u64_bytes_def u64_of_bytes_def u64_top s)
qed

lemma take_bytes_append: "take_bytes (length xs) (xs @ rest) = Some (xs, rest)"
  by (simp add: take_bytes_def)

lemma read_u64_encoded: "read_u64 (u64_bytes w @ rest) = Some (w, rest)"
  using take_bytes_append [of "u64_bytes w" rest]
  by (simp add: read_u64_def bind_read_def return_read_def length_u64_bytes u64_of_bytes_u64_bytes)

lemma read_u8_Cons: "read_u8 (b # rest) = Some (b, rest)"
  by (simp add: read_u8_def)

lemma varint_small: "n < 128 \<Longrightarrow> varint n = [of_nat n]"
  by (subst varint.simps) simp

lemma varint_large: "\<not> n < 128 \<Longrightarrow> varint n = of_nat (128 + n mod 128) # varint (n div 128)"
  by (subst varint.simps) simp

lemma unat_small_byte: "n < 128 \<Longrightarrow> unat (of_nat n :: byte) = n"
  by (simp add: unat_of_nat)

lemma unat_cont_byte: "unat (of_nat (128 + n mod 128) :: byte) = 128 + n mod 128"
  by (simp only: unat_of_nat) simp

lemma read_varint_encoded: "read_varint (varint n @ rest) = Some (n, rest)"
proof (induction n rule: varint.induct)
  case (1 n)
  show ?case
  proof (cases "n < 128")
    case True
    then show ?thesis by (simp add: varint_small unat_small_byte)
  next
    case False
    have ih: "read_varint (varint (n div 128) @ rest) = Some (n div 128, rest)"
      using False by (rule 1)
    show ?thesis
      by (simp only: varint_large[OF False] append_Cons read_varint.simps unat_cont_byte ih) simp
  qed
qed

lemma string_of_bytes_of_string: "string_of_bytes (bytes_of_string s) = s"
  by (induction s) (simp_all add: string_of_bytes_def bytes_of_string_def unat_of_nat)

lemma length_bytes_of_string: "length (bytes_of_string s) = length s"
  by (simp add: bytes_of_string_def)

lemma read_string_encoded: "read_string (put_string s @ rest) = Some (s, rest)"
  using take_bytes_append [of "bytes_of_string s" rest]
  by (simp add: read_string_def put_string_def bind_read_def return_read_def
        read_varint_encoded length_bytes_of_string string_of_bytes_of_string)

lemma read_items_encoded:
  "read_items (length items) (concat (map put_item items) @ rest) = Some (items, rest)"
proof (induction items)
  case Nil
  show ?case by (simp add: return_read_def)
next
  case (Cons kv items)
  have "concat (map put_item (kv # items)) @ rest
          = put_string (fst kv) @ put_string (snd kv) @ concat (map put_item items) @ rest"
    by (simp add: put_item_def)
  then show ?case
    by (simp add: bind_read_def return_read_def read_string_encoded Cons.IH)
qed

lemma read_context_encoded: "read_context (binaryEncode c @ rest) = Some (c, rest)"
  by (cases "parentId c")
     (simp_all add: read_context_def binaryEncode_def bind_read_def return_read_def
        read_u64_encoded read_u8_Cons read_varint_encoded read_items_encoded)

lemma binaryExtract_binaryInject: "binaryExtract (binaryInject c carrier) = Inr c"
  using read_context_encoded [of c "[]"]
  by (simp add: binaryExtract_def binaryInject_def)

section \<open>Round trip through either codec\<close>

text \<open>
  Claim C1. For every valid context \<open>c\<close>, injecting \<open>c\<close> into an empty carrier and
  extracting from that carrier gives \<open>c\<close> back, with either codec; the new context that
  \<open>newChildContext\<close> then makes of it has the trace id, the sampled flag and the whole
  baggage of \<open>c\<close>, and the span id of \<open>c\<close> as its parent id (\<open>fresh\<close> is the new
  context's own span id).
\<close>

theorem codec_round_trip:
  "valid_SpanContext c \<Longrightarrow>
   textMapExtract (textMapInject c []) = Some c \<and>
   textMapChild fresh (textMapInject c [])
     = Some \<lparr>traceId = traceId c, spanId = fresh, parentId = Some (spanId c),
              sampled = sampled c, baggage = baggage c\<rparr> \<and>
   binaryExtract (binaryInject c \<lparr>buffer = []\<rparr>) = Inr c \<and>
   binaryChild fresh (binaryInject c \<lparr>buffer = []\<rparr>)
     = Inr \<lparr>traceId = traceId c, spanId = fresh, parentId = Some (spanId c),
             sampled = sampled c, baggage = baggage c\<rparr>"
proof -
  assume v: "valid_SpanContext c"
  then have d: "distinct (map fst (baggage c))" and p: "parentId c \<noteq> Some 0"
    by (simp_all add: valid_SpanContext_def)
  have t: "textMapExtract (textMapInject c []) = Some c"
    using d p by (rule textMapExtract_textMapInject)
  have b: "binaryExtract (binaryInject c \<lparr>buffer = []\<rparr>) = Inr c"
    by (rule binaryExtract_binaryInject)
  show ?thesis
    by (simp add: textMapChild_def binaryChild_def t b newChildContext_def)
qed

lemma valid_sample_context: "tid \<noteq> 0 \<Longrightarrow> valid_SpanContext (sample_context tid)"
  by (simp add: valid_SpanContext_def sample_context_def matches_key_pattern_def lower_alnum_def)

text \<open>
  Claim C1 at the boundary trace ids 1 and \<open>0xFFFFFFFFFFFFFFFE\<close>, with two baggage
  items.
\<close>

theorem codec_round_trip_witness:
  "valid_SpanContext (sample_context 1) \<and>
   valid_SpanContext (sample_context 0xFFFFFFFFFFFFFFFE) \<and>
   textMapExtract (textMapInject (sample_context 1) []) = Some (sample_context 1) \<and>
   binaryExtract (binaryInject (sample_context 1) \<lparr>buffer = []\<rparr>) = Inr (sample_context 1) \<and>
   textMapChild 9 (textMapInject (sample_context 0xFFFFFFFFFFFFFFFE) [])
     = Some \<lparr>traceId = 0xFFFFFFFFFFFFFFFE, spanId = 9, parentId = Some 0x2A, sampled = True,
              baggage = [(''a'', ''1''), (''user-id'', ''x y'')]\<rparr> \<and>
   binaryChild 9 (binaryInject (sample_context 0xFFFFFFFFFFFFFFFE) \<lparr>buffer = []\<rparr>)
     = Inr \<lparr>traceId = 0xFFFFFFFFFFFFFFFE, spanId = 9, parentId = Some 0x2A, sampled = True,
             baggage = [(''a'', ''1''), (''user-id'', ''x y'')]\<rparr>"
proof -
  have a: "valid_SpanContext (sample_context 1)"
    by (rule valid_sample_context) simp
  have b: "valid_SpanContext (sample_context 0xFFFFFFFFFFFFFFFE)"
    by (rule valid_sample_context) simp
  from codec_round_trip [OF a, of 9] codec_round_trip [OF b, of 9] a b
  show ?thesis by (simp add: sample_context_def)
qed

text \<open>What the two codecs write for the sample context.\<close>

lemma sample_state_string:
  "render_state (sample_context 0xFFFFFFFFFFFFFFFE) = ''fffffffffffffffe:2a:7:1''"
  by (simp add: render_state_def sample_context_def render_id_def hex_of_nat.simps hex_digit_def hex_digits_def)

lemma sample_text_carrier:
  "textMapInject (sample_context 1) [(''host'', ''example.org'')]
     = [(''host'', ''example.org''), (''ot-tracer-state'', ''1:2a:7:1''),
        (''ot-baggage-a'', ''1''), (''ot-baggage-user-id'', ''x y'')]"
  by (simp add: textMapInject_def render_state_def sample_context_def render_id_def
        hex_of_nat.simps hex_digit_def hex_digits_def STATE_KEY_def BAGGAGE_PREFIX_def)

lemma sample_binary_buffer:
  "binaryEncode (sample_context 1)
     = [0, 0, 0, 0, 0, 0, 0, 1,  0, 0, 0, 0, 0, 0, 0, 0x2A,  1,  0, 0, 0, 0, 0, 0, 0, 7,  1,  2,
        1, 0x61, 1, 0x31,  7, 0x75, 0x73, 0x65, 0x72, 0x2D, 0x69, 0x64, 3, 0x78, 0x20, 0x79]"
  by (simp add: binaryEncode_def sample_context_def u64_bytes_def varint_small
        put_item_def put_string_def bytes_of_string_def)

section \<open>Bounds of the binary decoder\<close>

lemma reads_prefixI:
  assumes "\<And>bs x rest. p bs = Some (x, rest) \<Longrightarrow>
             \<exists>used. bs = used @ rest \<and> (\<forall>tail. p (used @ tail) = Some (x, tail)) \<and>
                    (\<forall>n<length used. p (take n used) = None)"
  shows "reads_prefix p"
  using assms unfolding reads_prefix_def by blast

lemma reads_prefixD:
  assumes "reads_prefix p" and "p bs = Some (x, rest)"
  shows "\<exists>used. bs = used @ rest \<and> (\<forall>tail. p (used @ tail) = Some (x, tail)) \<and>
                (\<forall>n<length used. p (take n used) = None)"
  using assms unfolding reads_prefix_def by blast

lemma reads_prefix_return: "reads_prefix (return_read x)"
  by (rule reads_prefixI) (auto simp: return_read_def)

lemma reads_prefix_take_bytes: "reads_prefix (take_bytes k)"
proof (rule reads_prefixI)
  fix bs x rest assume "take_bytes k bs = Some (x, rest)"
  then have k: "k \<le> length bs" and x: "x = take k bs" and r: "rest = drop k bs"
    by (auto simp: take_bytes_def split: if_splits)
  have l: "length x = k" using k x by simp
  have "bs = x @ rest" by (simp add: x r)
  moreover have "\<forall>tail. take_bytes k (x @ tail) = Some (x, tail)"
    using l by (simp add: take_bytes_def)
  moreover have "\<forall>n<length x. take_bytes k (take n x) = None"
    using l by (simp add: take_bytes_def)
  ultimately show "\<exists>used. bs = used @ rest \<and> (\<forall>tail. take_bytes k (used @ tail) = Some (x, tail)) \<and>
                    (\<forall>n<length used. take_bytes k (take n used) = None)"
    by blast
qed

lemma reads_prefix_read_u8: "reads_prefix read_u8"
proof (rule reads_prefixI)
  fix bs x rest assume "read_u8 bs = Some (x, rest)"
  then have "bs = [x] @ rest" by (auto simp: read_u8_def split: list.splits)
  moreover have "\<forall>tail. read_u8 ([x] @ tail) = Some (x, tail)" by (simp add: read_u8_def)
  moreover have "\<forall>n<length [x]. read_u8 (take n [x]) = None" by (simp add: read_u8_def)
  ultimately show "\<exists>used. bs = used @ rest \<and> (\<forall>tail. read_u8 (used @ tail) = Some (x, tail)) \<and>
                    (\<forall>n<length used. read_u8 (take n used) = None)"
    by blast
qed

lemma read_varint_prefix:
  "read_varint bs = Some (x, rest) \<Longrightarrow>
   \<exists>used. bs = used @ rest \<and> (\<forall>tail. read_varint (used @ tail) = Some (x, tail)) \<and>
          (\<forall>n<length used. read_varint (take n used) = None)"
proof (induction bs arbitrary: x rest)
  case Nil
  then show ?case by simp
next
  case (Cons b bs)
  show ?case
  proof (cases "unat b < 128")
    case True
    with Cons.prems have "x = unat b" and "rest = bs" by simp_all
    with True have "b # bs = [b] @ rest"
      and "\<forall>tail. read_varint ([b] @ tail) = Some (x, tail)"
      and "\<forall>n<length [b]. read_varint (take n [b]) = None"
      by simp_all
    then show ?thesis by blast
  next
    case False
    with Cons.prems obtain m where m: "read_varint bs = Some (m, rest)" and x: "x = unat b - 128 + 128 * m"
      by (auto split: option.splits)
    from Cons.IH [OF m] obtain u where u: "bs = u @ rest"
      and t: "\<And>tail. read_varint (u @ tail) = Some (m, tail)"
      and c: "\<And>n. n < length u \<Longrightarrow> read_varint (take n u) = None"
      by blast
    have "b # bs = (b # u) @ rest" by (simp add: u)
    moreover have "\<forall>tail. read_varint ((b # u) @ tail) = Some (x, tail)"
      using False by (simp add: t x)
    moreover have "\<forall>n<length (b # u). read_varint (take n (b # u)) = None"
    proof (intro allI impI)
      fix n assume n: "n < length (b # u)"
      show "read_varint (take n (b # u)) = None"
      proof (cases n)
        case 0
        then show ?thesis by simp
      next
        case (Suc k)
        with n have "k < length u" by simp
        then have "read_varint (take k u) = None" by (rule c)
        with False Suc show ?thesis by simp
      qed
    qed
    ultimately show ?thesis by blast
  qed
qed

lemma reads_prefix_read_varint: "reads_prefix read_varint"
  by (rule reads_prefixI) (rule read_varint_prefix)

lemma reads_prefix_bind:
  assumes p: "reads_prefix p" and f: "\<And>x. reads_prefix (f x)"
  shows "reads_prefix (bind_read p f)"
proof (rule reads_prefixI)
  fix bs y rest assume "bind_read p f bs = Some (y, rest)"
  then obtain x r1 where px: "p bs = Some (x, r1)" and fx: "f x r1 = Some (y, rest)"
    by (auto simp: bind_read_def split: option.splits)
  from reads_prefixD [OF p px] obtain u1 where b1: "bs = u1 @ r1"
    and t1: "\<And>tail. p (u1 @ tail) = Some (x, tail)"
    and c1: "\<And>n. n < length u1 \<Longrightarrow> p (take n u1) = None"
    by blast
  from reads_prefixD [OF f fx] obtain u2 where b2: "r1 = u2 @ rest"
    and t2: "\<And>tail. f x (u2 @ tail) = Some (y, tail)"
    and c2: "\<And>n. n < length u2 \<Longrightarrow> f x (take n u2) = None"
    by blast
  have "bs = (u1 @ u2) @ rest" by (simp add: b1 b2)
  moreover have "\<forall>tail. bind_read p f ((u1 @ u2) @ tail) = Some (y, tail)"
    by (simp add: bind_read_def t1 t2)
  moreover have "\<forall>n<length (u1 @ u2). bind_read p f (take n (u1 @ u2)) = None"
  proof (intro allI impI)
    fix n assume n: "n < length (u1 @ u2)"
    show "bind_read p f (take n (u1 @ u2)) = None"
    proof (cases "n < length u1")
      case True
      then have "p (take n u1) = None" by (rule c1)
      with True show ?thesis by (simp add: bind_read_def)
    next
      case False
      then have tk: "take n (u1 @ u2) = u1 @ take (n - length u1) u2" by simp
      from False n have "n - length u1 < length u2" by simp
      then have "f x (take (n - length u1) u2) = None" by (rule c2)
      then show ?thesis by (simp only: tk bind_read_def t1) simp
    qed
  qed
  ultimately show "\<exists>used. bs = used @ rest \<and> (\<forall>tail. bind_read p f (used @ tail) = Some (y, tail)) \<and>
                    (\<forall>n<length used. bind_read p f (take n used) = None)"
    by blast
qed

lemma reads_prefix_read_u64: "reads_prefix read_u64"
  unfolding read_u64_def
  by (intro reads_prefix_bind reads_prefix_take_bytes reads_prefix_return)

lemma reads_prefix_read_string: "reads_prefix read_string"
  unfolding read_string_def
  by (intro reads_prefix_bind reads_prefix_take_bytes reads_prefix_read_varint reads_prefix_return)

lemma reads_prefix_read_items: "reads_prefix (read_items n)"
proof (induction n)
  case 0
  show ?case by (simp add: reads_prefix_return)
next
  case (Suc n)
  show ?case
    unfolding read_items.simps
    by (intro reads_prefix_bind reads_prefix_read_string Suc reads_prefix_return)
qed

lemma reads_prefix_read_context: "reads_prefix read_context"
  unfolding read_context_def
  by (intro reads_prefix_bind reads_prefix_read_u64 reads_prefix_read_u8
        reads_prefix_read_varint reads_prefix_read_items reads_prefix_return)

lemma read_u64_shrinks: "read_u64 bs = Some (x, rest) \<Longrightarrow> length rest + 8 \<le> length bs"
  by (auto simp: read_u64_def bind_read_def return_read_def take_bytes_def split: if_splits)

lemma read_u8_shrinks: "read_u8 bs = Some (x, rest) \<Longrightarrow> length rest + 1 \<le> length bs"
  by (auto simp: read_u8_def split: list.splits)

lemma read_varint_shrinks: "read_varint bs = Some (x, rest) \<Longrightarrow> length rest + 1 \<le> length bs"
proof (induction bs arbitrary: x rest)
  case Nil
  then show ?case by simp
next
  case (Cons b bs)
  show ?case
  proof (cases "unat b < 128")
    case True
    with Cons.prems show ?thesis by simp
  next
    case False
    with Cons.prems obtain m where "read_varint bs = Some (m, rest)"
      by (auto split: option.splits)
    from Cons.IH [OF this] show ?thesis by simp
  qed
qed

lemma bind_read_SomeD:
  "bind_read p f bs = Some (y, rest) \<Longrightarrow> \<exists>x r. p bs = Some (x, r) \<and> f x r = Some (y, rest)"
  by (auto simp: bind_read_def split: option.splits)

lemma read_context_at_least: "read_context bs = Some (c, rest) \<Longrightarrow> 27 \<le> length bs"
  unfolding read_context_def
  by (auto dest!: bind_read_SomeD read_u64_shrinks read_u8_shrinks read_varint_shrinks)

lemma read_string_past_end: "length tail < L \<Longrightarrow> read_string (varint L @ tail) = None"
  by (simp add: read_string_def bind_read_def read_varint_encoded take_bytes_def)

lemma read_items_more:
  "read_items (length items + m) (concat (map put_item items) @ t)
     = (case read_items m t of None \<Rightarrow> None | Some (ms, r) \<Rightarrow> Some (items @ ms, r))"
proof (induction items)
  case Nil
  show ?case by (simp split: option.splits)
next
  case (Cons kv items)
  have "concat (map put_item (kv # items)) @ t
          = put_string (fst kv) @ put_string (snd kv) @ concat (map put_item items) @ t"
    by (simp add: put_item_def)
  then show ?case
    by (simp add: bind_read_def return_read_def read_string_encoded Cons.IH split: option.splits)
qed

lemma read_items_past_end: "read_items (Suc m) [] = None"
  by (simp add: bind_read_def read_string_def)

lemma read_items_key_past_end:
  "length tail < L \<Longrightarrow> read_items (Suc m) (varint L @ tail) = None"
  by (simp add: bind_read_def read_string_past_end)

lemma read_items_value_past_end:
  "length tail < L \<Longrightarrow> read_items (Suc m) (put_string k @ varint L @ tail) = None"
  by (simp add: bind_read_def read_string_encoded read_string_past_end)

lemma read_context_layout:
  "read_context (u64_bytes tid @ u64_bytes sid @ flag # u64_bytes pid @ smp # varint count @ body)
     = (case read_items count body of
          None \<Rightarrow> None
        | Some (items, r) \<Rightarrow>
            Some (\<lparr>traceId = tid, spanId = sid,
                   parentId = (if flag = 0 then None else Some pid),
                   sampled = (smp \<noteq> 0), baggage = items\<rparr>, r))"
  by (simp add: read_context_def bind_read_def return_read_def
        read_u64_encoded read_u8_Cons read_varint_encoded split: option.splits)

lemma read_context_missing_item:
  assumes "length items < count" and "read_items (Suc (count - Suc (length items))) t = None"
  shows "read_context (u64_bytes tid @ u64_bytes sid @ [flag] @ u64_bytes pid @ [smp] @
            varint count @ concat (map put_item items) @ t) = None"
proof -
  from assms(1) have c: "count = length items + Suc (count - Suc (length items))" by simp
  have "read_items count (concat (map put_item items) @ t) = None"
    by (subst c) (simp only: read_items_more assms(2) option.case)
  then show ?thesis by (simp add: read_context_layout)
qed

lemma read_context_truncated:
  assumes "read_context bs = Some (c, rest)"
  shows "\<exists>used. bs = used @ rest \<and> (\<forall>tail. read_context (used @ tail) = Some (c, tail)) \<and>
               (\<forall>n<length used. read_context (take n bs) = None)"
proof -
  from reads_prefixD [OF reads_prefix_read_context assms] obtain used where
    u: "bs = used @ rest" and t: "\<forall>tail. read_context (used @ tail) = Some (c, tail)"
    and n: "\<And>n. n < length used \<Longrightarrow> read_context (take n used) = None"
    by blast
  have "\<forall>n<length used. read_context (take n bs) = None"
    using n by (simp add: u)
  with u t show ?thesis by blast
qed

lemma binaryExtract_short:
  assumes "length (buffer carrier) < 27"
  shows "binaryExtract carrier = Inl MalformedCarrier"
proof (cases "read_context (buffer carrier)")
  case None
  then show ?thesis by (simp add: binaryExtract_def)
next
  case (Some r)
  obtain c rest where "r = (c, rest)" by (cases r)
  with Some have "27 \<le> length (buffer carrier)" by (simp add: read_context_at_least)
  with assms show ?thesis by simp
qed

text \<open>
  Through the tracer: \<open>join\<close> with the binary format hands the carrier to the binary
  propagator and catches nothing, so the failure on a short buffer reaches the caller.
\<close>

lemma join_binary_short_buffer:
  assumes "interface t = Some i" and "FORMAT_BINARY i \<noteq> FORMAT_TEXT_MAP i"
    and "binaryPropagator t = BinaryPropagator fresh" and "length (buffer carrier) < 27"
  shows "join t opName (FORMAT_BINARY i) carrier = Inl MalformedCarrier"
  using assms(1,2,3) binaryExtract_short [OF assms(4)]
  by (simp add: join_def BinaryPropagator_def binaryChild_def)

text \<open>
  Claim C3. Binary extract fails with \<open>MalformedCarrier\<close> on every buffer shorter than
  the 27 bytes the fixed fields and the baggage count demand (the empty buffer among
  them); on every buffer that ends before the declared count of items is reached, or
  in which the declared length of a key or of a value exceeds the bytes that follow
  it; and on every buffer cut short of a complete encoding. In
  general extract either fails with \<open>MalformedCarrier\<close> or has read a prefix of the
  buffer that lies inside it, gives the same context whatever bytes follow that prefix,
  and fails on the buffer cut anywhere inside that prefix. The decoder takes bytes only through
  \<open>take_bytes\<close>, \<open>read_u8\<close> and \<open>read_varint\<close>, each of which checks what is left
  before it reads.
\<close>

theorem binaryExtract_bounds_checked:
  "(length (buffer carrier) < 27 \<longrightarrow> binaryExtract carrier = Inl MalformedCarrier) \<and>
   (length items < count \<longrightarrow>
      binaryExtract \<lparr>buffer = u64_bytes tid @ u64_bytes sid @ [flag] @ u64_bytes pid @ [smp] @
         varint count @ concat (map put_item items)\<rparr> = Inl MalformedCarrier) \<and>
   (length items < count \<and> length tail < L \<longrightarrow>
      binaryExtract \<lparr>buffer = u64_bytes tid @ u64_bytes sid @ [flag] @ u64_bytes pid @ [smp] @
         varint count @ concat (map put_item items) @ varint L @ tail\<rparr> = Inl MalformedCarrier) \<and>
   (length items < count \<and> length tail < L \<longrightarrow>
      binaryExtract \<lparr>buffer = u64_bytes tid @ u64_bytes sid @ [flag] @ u64_bytes pid @ [smp] @
         varint count @ concat (map put_item items) @ put_string k @ varint L @ tail\<rparr>
        = Inl MalformedCarrier) \<and>
   (\<forall>n<length (binaryEncode c).
      binaryExtract \<lparr>buffer = take n (binaryEncode c)\<rparr> = Inl MalformedCarrier) \<and>
   (binaryExtract carrier = Inl MalformedCarrier \<or>
    (\<exists>ctx used rest.
       binaryExtract carrier = Inr ctx \<and> buffer carrier = used @ rest \<and>
       (\<forall>tail. binaryExtract \<lparr>buffer = used @ tail\<rparr> = Inr ctx) \<and>
       (\<forall>n<length used.
          binaryExtract \<lparr>buffer = take n (buffer carrier)\<rparr> = Inl MalformedCarrier)))"
proof (intro conjI impI)
  assume "length (buffer carrier) < 27"
  then show "binaryExtract carrier = Inl MalformedCarrier"
    by (rule binaryExtract_short)
next
  assume l: "length items < count"
  have "read_items (Suc (count - Suc (length items))) [] = None"
    by (rule read_items_past_end)
  with l have "read_context (u64_bytes tid @ u64_bytes sid @ [flag] @ u64_bytes pid @ [smp] @
         varint count @ concat (map put_item items) @ []) = None"
    by (rule read_context_missing_item)
  then show "binaryExtract \<lparr>buffer = u64_bytes tid @ u64_bytes sid @ [flag] @ u64_bytes pid @ [smp] @
         varint count @ concat (map put_item items)\<rparr> = Inl MalformedCarrier"
    by (simp add: binaryExtract_def)
next
  assume a: "length items < count \<and> length tail < L"
  then have l: "length items < count" and t: "length tail < L" by simp_all
  from t have "read_items (Suc (count - Suc (length items))) (varint L @ tail) = None"
    by (rule read_items_key_past_end)
  with l have "read_context (u64_bytes tid @ u64_bytes sid @ [flag] @ u64_bytes pid @ [smp] @
         varint count @ concat (map put_item items) @ varint L @ tail) = None"
    by (rule read_context_missing_item)
  then show "binaryExtract \<lparr>buffer = u64_bytes tid @ u64_bytes sid @ [flag] @ u64_bytes pid @ [smp] @
         varint count @ concat (map put_item items) @ varint L @ tail\<rparr> = Inl MalformedCarrier"
    by (simp add: binaryExtract_def)
next
  assume a: "length items < count \<and> length tail < L"
  then have l: "length items < count" and t: "length tail < L" by simp_all
  from t have "read_items (Suc (count - Suc (length items))) (put_string k @ varint L @ tail) = None"
    by (rule read_items_value_past_end)
  with l have "read_context (u64_bytes tid @ u64_bytes sid @ [flag] @ u64_bytes pid @ [smp] @
         varint count @ concat (map put_item items) @ put_string k @ varint L @ tail) = None"
    by (rule read_context_missing_item)
  then show "binaryExtract \<lparr>buffer = u64_bytes tid @ u64_bytes sid @ [flag] @ u64_bytes pid @ [smp] @
         varint count @ concat (map put_item items) @ put_string k @ varint L @ tail\<rparr>
        = Inl MalformedCarrier"
    by (simp add: binaryExtract_def)
next
  have e: "read_context (binaryEncode c) = Some (c, [])"
    using read_context_encoded [of c "[]"] by simp
  from read_context_truncated [OF e] obtain used where
    u: "binaryEncode c = used @ []" and n: "\<forall>n<length used. read_context (take n (binaryEncode c)) = None"
    by blast
  from u have "used = binaryEncode c" by simp
  with n show "\<forall>n<length (binaryEncode c).
      binaryExtract \<lparr>buffer = take n (binaryEncode c)\<rparr> = Inl MalformedCarrier"
    by (simp add: binaryExtract_def)
next
  show "binaryExtract carrier = Inl MalformedCarrier \<or>
    (\<exists>ctx used rest.
       binaryExtract carrier = Inr ctx \<and> buffer carrier = used @ rest \<and>
       (\<forall>tail. binaryExtract \<lparr>buffer = used @ tail\<rparr> = Inr ctx) \<and>
       (\<forall>n<length used.
          binaryExtract \<lparr>buffer = take n (buffer carrier)\<rparr> = Inl MalformedCarrier))"
  proof (cases "read_context (buffer carrier)")
    case None
    then show ?thesis by (simp add: binaryExtract_def)
  next
    case (Some r)
    obtain ctx rest where r: "r = (ctx, rest)" by (cases r)
    from read_context_truncated [OF Some [unfolded r]] obtain used where
      "buffer carrier = used @ rest" and "\<forall>tail. read_context (used @ tail) = Some (ctx, tail)"
      and "\<forall>n<length used. read_context (take n (buffer carrier)) = None"
      by blast
    then have "binaryExtract carrier = Inr ctx \<and> buffer carrier = used @ rest \<and>
       (\<forall>tail. binaryExtract \<lparr>buffer = used @ tail\<rparr> = Inr ctx) \<and>
       (\<forall>n<length used.
          binaryExtract \<lparr>buffer = take n (buffer carrier)\<rparr> = Inl MalformedCarrier)"
      using Some r by (simp add: binaryExtract_def)
    then show ?thesis by blast
  qed
qed

lemma length_sample_encoding: "length (binaryEncode (sample_context 1)) = 43"
  by (simp add: binaryEncode_def sample_context_def length_u64_bytes varint_small
        put_item_def put_string_def length_bytes_of_string)

text \<open>
  Claim C3 at the empty buffer, at a buffer that declares one item and holds none, at a
  key whose declared length 5 is followed by two bytes, at a value whose declared
  length 3 is followed by one byte, and at the sample encoding without its last byte.
\<close>

theorem binaryExtract_bounds_checked_witness:
  "binaryExtract \<lparr>buffer = []\<rparr> = Inl MalformedCarrier \<and>
   binaryExtract \<lparr>buffer = u64_bytes 1 @ u64_bytes 2 @ [0] @ u64_bytes 0 @ [1] @
      varint 1 @ concat (map put_item [])\<rparr> = Inl MalformedCarrier \<and>
   binaryExtract \<lparr>buffer = u64_bytes 1 @ u64_bytes 2 @ [0] @ u64_bytes 0 @ [1] @
      varint 1 @ concat (map put_item []) @ varint 5 @ [0x61, 0x62]\<rparr> = Inl MalformedCarrier \<and>
   binaryExtract \<lparr>buffer = u64_bytes 1 @ u64_bytes 2 @ [0] @ u64_bytes 0 @ [1] @
      varint 2 @ concat (map put_item [(''a'', ''1'')]) @ put_string ''b'' @ varint 3 @ [0x32]\<rparr>
     = Inl MalformedCarrier \<and>
   binaryExtract \<lparr>buffer = take 42 (binaryEncode (sample_context 1))\<rparr> = Inl MalformedCarrier"
proof -
  have a: "length (buffer \<lparr>buffer = []\<rparr>) < 27" by simp
  have b: "length ([] :: (string \<times> string) list) < 1 \<and> length [0x61, 0x62 :: byte] < 5" by simp
  have c: "length [(''a'', ''1'')] < (2::nat) \<and> length [0x32 :: byte] < 3" by simp
  have d: "42 < length (binaryEncode (sample_context 1))" by (simp add: length_sample_encoding)
  from binaryExtract_bounds_checked
         [where carrier = "\<lparr>buffer = []\<rparr>" and items = "[]" and count = 1
            and tail = "[0x61, 0x62]" and L = 5 and tid = 1 and sid = 2 and flag = 0 and pid = 0
            and smp = 1 and k = "''b''" and c = "sample_context 1"]
       binaryExtract_bounds_checked
         [where carrier = "\<lparr>buffer = []\<rparr>" and items = "[(''a'', ''1'')]" and count = 2
            and tail = "[0x32]" and L = 3 and tid = 1 and sid = 2 and flag = 0 and pid = 0
            and smp = 1 and k = "''b''" and c = "sample_context 1"]
       a b c d
  show ?thesis by blast
qed

end
